theory Spec2Isabelle
  imports Complex_Main
begin

section \<open>Conway's game of life on a torus: the data\<close>

text \<open>
  The source (\<^verbatim>\<open>GameOfLife/game_of_life.cpp\<close>, namespace \<^verbatim>\<open>gol\<close>) has three classes.
  \<^verbatim>\<open>Cell\<close> holds one flag, \<^verbatim>\<open>Line\<close> holds a \<^verbatim>\<open>std::vector<Cell>\<close> and \<^verbatim>\<open>Grid\<close> holds two
  \<^verbatim>\<open>std::vector<Line>\<close>: the drawn buffer \<^verbatim>\<open>lines\<close> and the hidden buffer
  \<^verbatim>\<open>lines_buffer\<close>. Each class is a record with the fields of the source, each vector a list.

  Indices and sizes are \<^verbatim>\<open>std::size_t\<close> in the source (the loop counters are \<^verbatim>\<open>int\<close>) and
  \<open>nat\<close> here. The only subtraction, \<^verbatim>\<open>lines.size() - 1\<close>, is evaluated inside the loops
  over \<^verbatim>\<open>ii < lines.size()\<close>, so the size is at least one there and nothing wraps.
  \<^verbatim>\<open>std::vector::operator[]\<close> is unchecked: an index out of range is undefined in the
  source, and \<open>xs ! i\<close> is unspecified there in the model. Every statement about a cell
  therefore carries the range of its coordinates and the shape of the grid (\<open>square\<close> below).
\<close>

record Cell =
  alive :: bool

definition Cell_new :: "bool \<Rightarrow> Cell" where
  "Cell_new a = \<lparr>alive = a\<rparr>"

definition Cell_isAlive :: "Cell \<Rightarrow> bool" where
  "Cell_isAlive c = alive c"

definition setAlive :: "bool \<Rightarrow> Cell \<Rightarrow> Cell" where
  "setAlive a c = c\<lparr>alive := a\<rparr>"

type_synonym CellsLine = "Cell list"

record Line =
  cells_line :: CellsLine

text \<open>\<^verbatim>\<open>Line(size)\<close> is \<^verbatim>\<open>cells_line(size, false)\<close>: \<open>size\<close> copies of \<^verbatim>\<open>Cell(false)\<close>.\<close>

definition Line_new :: "nat \<Rightarrow> Line" where
  "Line_new n = \<lparr>cells_line = replicate n (Cell_new False)\<rparr>"

text \<open>
  \<^verbatim>\<open>Line::operator[]\<close> returns a reference to a cell. A read through it is \<open>Line_at\<close>,
  a call of \<^verbatim>\<open>setAlive\<close> through it is \<open>Line_setAlive\<close>.
\<close>

definition Line_at :: "Line \<Rightarrow> nat \<Rightarrow> Cell" where
  "Line_at l xx = cells_line l ! xx"

definition Line_setAlive :: "Line \<Rightarrow> nat \<Rightarrow> bool \<Rightarrow> Line" where
  "Line_setAlive l xx a = l\<lparr>cells_line := (cells_line l)[xx := setAlive a (cells_line l ! xx)]\<rparr>"

type_synonym CellsGrid = "Line list"

record Grid =
  lines :: CellsGrid
  lines_buffer :: CellsGrid

text \<open>
  \<^verbatim>\<open>Grid(size)\<close> is \<^verbatim>\<open>lines(size, size), lines_buffer(size, size)\<close>: each buffer is \<open>size\<close>
  copies of \<^verbatim>\<open>Line(size)\<close>.
\<close>

definition Grid_new :: "nat \<Rightarrow> Grid" where
  "Grid_new n = \<lparr>lines = replicate n (Line_new n), lines_buffer = replicate n (Line_new n)\<rparr>"

definition Grid_size :: "Grid \<Rightarrow> nat" where
  "Grid_size g = length (lines g)"

text \<open>
  The public operations of \<^verbatim>\<open>Grid\<close> are not \<^verbatim>\<open>const\<close> in the source, so each is modelled
  with the grid it leaves behind. \<^verbatim>\<open>isAlive\<close> returns its answer and the grid.
\<close>

definition isAlive :: "Grid \<Rightarrow> nat \<Rightarrow> nat \<Rightarrow> bool \<times> Grid" where
  "isAlive g xx yy = (Cell_isAlive (Line_at (lines g ! xx) yy), g)"

text \<open>Reads of one cell of either buffer, as the loops below write them.\<close>

definition lines_alive :: "Grid \<Rightarrow> nat \<Rightarrow> nat \<Rightarrow> bool" where
  "lines_alive g ii jj = Cell_isAlive (Line_at (lines g ! ii) jj)"

definition buffer_alive :: "Grid \<Rightarrow> nat \<Rightarrow> nat \<Rightarrow> bool" where
  "buffer_alive g ii jj = Cell_isAlive (Line_at (lines_buffer g ! ii) jj)"

text \<open>The writes \<^verbatim>\<open>lines[ii][jj].setAlive(a)\<close> and \<^verbatim>\<open>lines_buffer[ii][jj].setAlive(a)\<close>.\<close>

definition lines_setAlive :: "Grid \<Rightarrow> nat \<Rightarrow> nat \<Rightarrow> bool \<Rightarrow> Grid" where
  "lines_setAlive g ii jj a = g\<lparr>lines := (lines g)[ii := Line_setAlive (lines g ! ii) jj a]\<rparr>"

definition buffer_setAlive :: "Grid \<Rightarrow> nat \<Rightarrow> nat \<Rightarrow> bool \<Rightarrow> Grid" where
  "buffer_setAlive g ii jj a =
     g\<lparr>lines_buffer := (lines_buffer g)[ii := Line_setAlive (lines_buffer g ! ii) jj a]\<rparr>"

text \<open>
  The shape every constructed grid has and every operation keeps (\<open>reachable_square\<close>
  below): both buffers have as many lines as \<^verbatim>\<open>lines.size()\<close>, and every line has that
  many cells.
\<close>

definition square :: "Grid \<Rightarrow> bool" where
  "square g =
     (length (lines_buffer g) = length (lines g)
      \<and> list_all (\<lambda>l. length (cells_line l) = length (lines g)) (lines g)
      \<and> list_all (\<lambda>l. length (cells_line l) = length (lines g)) (lines_buffer g))"

section \<open>Neighbour counting\<close>

text \<open>
  \<^verbatim>\<open>countAliveCells(ii, jj)\<close> reads the drawn buffer only. The arrays \<^verbatim>\<open>xx\<close> and \<^verbatim>\<open>yy\<close> of the
  source hold the wrapped indices on the left and on the right; \<^verbatim>\<open>char(bool)\<close> is 0 or 1,
  the sum of eight of them is at most 8 and fits the \<^verbatim>\<open>char\<close> it is stored in.
\<close>

definition countAliveCells :: "Grid \<Rightarrow> nat \<Rightarrow> nat \<Rightarrow> nat" where
  "countAliveCells g ii jj =
     (let xx_LEFT = (if ii = 0 then length (lines g) - 1 else ii - 1);
          xx_RGHT = (if ii = length (lines g) - 1 then 0 else ii + 1);
          yy_LEFT = (if jj = 0 then length (lines g) - 1 else jj - 1);
          yy_RGHT = (if jj = length (lines g) - 1 then 0 else jj + 1)
      in of_bool (lines_alive g ii yy_LEFT)
       + of_bool (lines_alive g ii yy_RGHT)
       + of_bool (lines_alive g xx_LEFT jj)
       + of_bool (lines_alive g xx_LEFT yy_LEFT)
       + of_bool (lines_alive g xx_LEFT yy_RGHT)
       + of_bool (lines_alive g xx_RGHT jj)
       + of_bool (lines_alive g xx_RGHT yy_LEFT)
       + of_bool (lines_alive g xx_RGHT yy_RGHT))"

section \<open>Random seeding\<close>

text \<open>
  \<^verbatim>\<open>aux::rndBool(probability)\<close> draws one number with \<^verbatim>\<open>std::rand()\<close>. The generator is
  global state of the C library; here it is the sequence \<open>rand\<close> of the numbers that
  successive calls return, with the count \<open>k\<close> of the calls made so far as the state that
  is passed along. Every call returns \<open>rand k\<close> and leaves \<open>k + 1\<close>.

  The arithmetic of the source is on \<^verbatim>\<open>double\<close>; the model computes on exact reals,
  \<^verbatim>\<open>std::log10\<close> as \<open>log 10\<close>, \<^verbatim>\<open>std::pow(10, n)\<close> as \<open>10 powr n\<close>. The conversions of a
  \<^verbatim>\<open>double\<close> to \<^verbatim>\<open>int\<close> and to \<^verbatim>\<open>unsigned\<close> truncate toward zero (\<open>double_to_int\<close>).
  The logarithm needs a positive probability: \<^verbatim>\<open>std::log10\<close> of 0 is minus infinity, whose
  conversion to \<^verbatim>\<open>int\<close> is undefined in the source, so statements that evaluate
  \<open>rndBool\<close> do so at positive probabilities only. \<^verbatim>\<open>std::rand() % pow10\<close> is taken in
  \<^verbatim>\<open>unsigned\<close>; the result of \<^verbatim>\<open>std::rand()\<close> is never negative.
\<close>

definition double_to_int :: "real \<Rightarrow> int" where
  "double_to_int x = (if 0 \<le> x then \<lfloor>x\<rfloor> else \<lceil>x\<rceil>)"

definition rndBool :: "real \<Rightarrow> (nat \<Rightarrow> nat) \<Rightarrow> nat \<Rightarrow> bool \<times> nat" where
  "rndBool probability rand k =
     (let pow10 = nat (double_to_int
                    (10 powr real_of_int (double_to_int (log 10 probability + 1)) + 1));
          probability' = probability / real pow10;
          rnd = real (rand k mod pow10) / real pow10
      in (if rnd < probability' then True else False, k + 1))"

text \<open>
  \<^verbatim>\<open>Line::initializeRandomly\<close> walks over the cells of the line and
  \<^verbatim>\<open>Grid::initializeRandomly\<close> over the lines of the drawn buffer \<^verbatim>\<open>lines\<close>, in order, one
  draw per cell. The hidden buffer is not mentioned in either.
\<close>

fun cells_initializeRandomly ::
  "real \<Rightarrow> (nat \<Rightarrow> nat) \<Rightarrow> CellsLine \<Rightarrow> nat \<Rightarrow> CellsLine \<times> nat" where
  "cells_initializeRandomly probability rand [] k = ([], k)"
| "cells_initializeRandomly probability rand (cell # cells) k =
     (let (al, k1) = rndBool probability rand k;
          (cells', k2) = cells_initializeRandomly probability rand cells k1
      in (setAlive al cell # cells', k2))"

definition Line_initializeRandomly ::
  "real \<Rightarrow> (nat \<Rightarrow> nat) \<Rightarrow> Line \<Rightarrow> nat \<Rightarrow> Line \<times> nat" where
  "Line_initializeRandomly probability rand l k =
     (let (cells', k') = cells_initializeRandomly probability rand (cells_line l) k
      in (l\<lparr>cells_line := cells'\<rparr>, k'))"

fun lines_initializeRandomly ::
  "real \<Rightarrow> (nat \<Rightarrow> nat) \<Rightarrow> CellsGrid \<Rightarrow> nat \<Rightarrow> CellsGrid \<times> nat" where
  "lines_initializeRandomly probability rand [] k = ([], k)"
| "lines_initializeRandomly probability rand (line # ls) k =
     (let (line', k1) = Line_initializeRandomly probability rand line k;
          (ls', k2) = lines_initializeRandomly probability rand ls k1
      in (line' # ls', k2))"

definition Grid_initializeRandomly ::
  "real \<Rightarrow> (nat \<Rightarrow> nat) \<Rightarrow> Grid \<Rightarrow> nat \<Rightarrow> Grid \<times> nat" where
  "Grid_initializeRandomly probability rand g k =
     (let (ls', k') = lines_initializeRandomly probability rand (lines g) k
      in (g\<lparr>lines := ls'\<rparr>, k'))"

section \<open>One generation\<close>

text \<open>
  \<^verbatim>\<open>go()\<close> runs \<^verbatim>\<open>linesToBuffer()\<close> and then \<^verbatim>\<open>bufferToLines()\<close>. Both are two nested
  \<^verbatim>\<open>for\<close> loops over \<^verbatim>\<open>ii < lines.size()\<close> and \<^verbatim>\<open>jj < lines.size()\<close>, counting up from
  0. Each loop is a recursive function on its counter and the grid, with the test of the
  source; \<open>linesToBuffer_cell\<close> and \<open>bufferToLines_cell\<close> are the loop bodies.

  The body of \<^verbatim>\<open>linesToBuffer\<close> tests \<^verbatim>\<open>lines_buffer[ii][jj].isAlive()\<close>, the hidden buffer,
  and switches on the count taken from the drawn buffer. A cell that is dead in the hidden
  buffer and has a count other than 3 is not written at all.
\<close>

definition linesToBuffer_cell :: "nat \<Rightarrow> nat \<Rightarrow> Grid \<Rightarrow> Grid" where
  "linesToBuffer_cell ii jj g =
     (let count = countAliveCells g ii jj in
      if buffer_alive g ii jj then
        (if count = 0 \<or> count = 1 then buffer_setAlive g ii jj False
         else if count = 2 \<or> count = 3 then buffer_setAlive g ii jj True
         else buffer_setAlive g ii jj False)
      else if count = 3 then buffer_setAlive g ii jj True
      else g)"

lemma lines_buffer_setAlive [simp]: "lines (buffer_setAlive g ii jj a) = lines g"
  by (simp add: buffer_setAlive_def)

lemma lines_buffer_lines_setAlive [simp]: "lines_buffer (lines_setAlive g ii jj a) = lines_buffer g"
  by (simp add: lines_setAlive_def)

lemma length_lines_lines_setAlive [simp]: "length (lines (lines_setAlive g ii jj a)) = length (lines g)"
  by (simp add: lines_setAlive_def)

lemma lines_linesToBuffer_cell [simp]: "lines (linesToBuffer_cell ii jj g) = lines g"
  by (simp add: linesToBuffer_cell_def Let_def)

function linesToBuffer_jj :: "nat \<Rightarrow> nat \<Rightarrow> Grid \<Rightarrow> Grid" where
  "linesToBuffer_jj ii jj g =
     (if jj < length (lines g) then linesToBuffer_jj ii (Suc jj) (linesToBuffer_cell ii jj g)
      else g)"
  by pat_completeness auto
termination
  by (relation "measure (\<lambda>(ii, jj, g). length (lines g) - jj)") auto

declare linesToBuffer_jj.simps [simp del]

lemma lines_linesToBuffer_jj [simp]: "lines (linesToBuffer_jj ii jj g) = lines g"
  by (induction ii jj g rule: linesToBuffer_jj.induct) (subst linesToBuffer_jj.simps, simp)

function linesToBuffer_ii :: "nat \<Rightarrow> Grid \<Rightarrow> Grid" where
  "linesToBuffer_ii ii g =
     (if ii < length (lines g) then linesToBuffer_ii (Suc ii) (linesToBuffer_jj ii 0 g)
      else g)"
  by pat_completeness auto
termination
  by (relation "measure (\<lambda>(ii, g). length (lines g) - ii)") auto

declare linesToBuffer_ii.simps [simp del]

definition linesToBuffer :: "Grid \<Rightarrow> Grid" where
  "linesToBuffer g = linesToBuffer_ii 0 g"

definition bufferToLines_cell :: "nat \<Rightarrow> nat \<Rightarrow> Grid \<Rightarrow> Grid" where
  "bufferToLines_cell ii jj g = lines_setAlive g ii jj (buffer_alive g ii jj)"

lemma length_lines_bufferToLines_cell [simp]:
  "length (lines (bufferToLines_cell ii jj g)) = length (lines g)"
  by (simp add: bufferToLines_cell_def)

function bufferToLines_jj :: "nat \<Rightarrow> nat \<Rightarrow> Grid \<Rightarrow> Grid" where
  "bufferToLines_jj ii jj g =
     (if jj < length (lines g) then bufferToLines_jj ii (Suc jj) (bufferToLines_cell ii jj g)
      else g)"
  by pat_completeness auto
termination
  by (relation "measure (\<lambda>(ii, jj, g). length (lines g) - jj)") auto

declare bufferToLines_jj.simps [simp del]

lemma length_lines_bufferToLines_jj [simp]:
  "length (lines (bufferToLines_jj ii jj g)) = length (lines g)"
  by (induction ii jj g rule: bufferToLines_jj.induct) (subst bufferToLines_jj.simps, simp)

function bufferToLines_ii :: "nat \<Rightarrow> Grid \<Rightarrow> Grid" where
  "bufferToLines_ii ii g =
     (if ii < length (lines g) then bufferToLines_ii (Suc ii) (bufferToLines_jj ii 0 g)
      else g)"
  by pat_completeness auto
termination
  by (relation "measure (\<lambda>(ii, g). length (lines g) - ii)") auto

declare bufferToLines_ii.simps [simp del]

definition bufferToLines :: "Grid \<Rightarrow> Grid" where
  "bufferToLines g = bufferToLines_ii 0 g"

definition go :: "Grid \<Rightarrow> Grid" where
  "go g = bufferToLines (linesToBuffer g)"

section \<open>The rule and the torus, in the words of the specification\<close>

text \<open>
  The classic rule of the specification: an alive cell with 0 or 1 live neighbours dies,
  with 2 or 3 it stays alive, with 4 or more it dies; a dead cell with exactly 3 live
  neighbours becomes alive, any other dead cell stays dead.
\<close>

definition classic_rule :: "bool \<Rightarrow> nat \<Rightarrow> bool" where
  "classic_rule a c =
     (if a then (if c = 0 \<or> c = 1 then False else if c = 2 \<or> c = 3 then True else False)
      else (if c = 3 then True else False))"

text \<open>
  The eight neighbours of cell \<open>(i, j)\<close> on a torus of side \<open>n\<close>: the offsets \<open>-1\<close>, \<open>0\<close>
  and \<open>1\<close> in both directions, the centre left out, each coordinate taken modulo \<open>n\<close>.
\<close>

definition torus_neighbours :: "nat \<Rightarrow> nat \<Rightarrow> nat \<Rightarrow> (nat \<times> nat) list" where
  "torus_neighbours n i j =
     [(nat ((int i + di) mod int n), nat ((int j + dj) mod int n)).
        di \<leftarrow> [-1, 0, 1], dj \<leftarrow> [-1, 0, 1], (di, dj) \<noteq> (0, 0)]"

text \<open>
  The grids a caller can get: a constructed grid, and what seeding, a generation step or
  a query leaves of a grid it could get.
\<close>

inductive reachable :: "Grid \<Rightarrow> bool" where
  construct: "reachable (Grid_new n)"
| seed: "reachable g \<Longrightarrow> reachable (fst (Grid_initializeRandomly probability rand g k))"
| advance: "reachable g \<Longrightarrow> reachable (go g)"
| query: "reachable g \<Longrightarrow> reachable (snd (isAlive g xx yy))"

text \<open>No cell of a buffer is alive; no cell of the drawn buffer of a grid is alive.\<close>

definition cells_all_dead :: "CellsGrid \<Rightarrow> bool" where
  "cells_all_dead ls = list_all (\<lambda>l. list_all (\<lambda>c. \<not> Cell_isAlive c) (cells_line l)) ls"

definition all_dead :: "Grid \<Rightarrow> bool" where
  "all_dead g = cells_all_dead (lines g)"

text \<open>\<open>n\<close> calls of \<^verbatim>\<open>isAlive(xx, yy)\<close> in a row: the answers, and the grid left.\<close>

fun isAlive_times :: "nat \<Rightarrow> Grid \<Rightarrow> nat \<Rightarrow> nat \<Rightarrow> bool list \<times> Grid" where
  "isAlive_times 0 g xx yy = ([], g)"
| "isAlive_times (Suc n) g xx yy =
     (let (b, g1) = isAlive g xx yy;
          (bs, g2) = isAlive_times n g1 xx yy
      in (b # bs, g2))"

section \<open>Concrete grids\<close>

text \<open>
  Grids written out cell by cell, line by line: \<open>Grid_of drawn hidden\<close> has the drawn
  buffer \<open>drawn\<close> and the hidden buffer \<open>hidden\<close>.
\<close>

definition Line_of :: "bool list \<Rightarrow> Line" where
  "Line_of bs = \<lparr>cells_line = map Cell_new bs\<rparr>"

definition Grid_of :: "bool list list \<Rightarrow> bool list list \<Rightarrow> Grid" where
  "Grid_of drawn hidden = \<lparr>lines = map Line_of drawn, lines_buffer = map Line_of hidden\<rparr>"

definition dead_5 :: "bool list list" where
  "dead_5 = [[False, False, False, False, False],
             [False, False, False, False, False],
             [False, False, False, False, False],
             [False, False, False, False, False],
             [False, False, False, False, False]]"

definition blinker_horizontal :: "bool list list" where
  "blinker_horizontal =
            [[False, False, False, False, False],
             [False, False, False, False, False],
             [False, True,  True,  True,  False],
             [False, False, False, False, False],
             [False, False, False, False, False]]"

definition blinker_vertical :: "bool list list" where
  "blinker_vertical =
            [[False, False, False, False, False],
             [False, False, True,  False, False],
             [False, False, True,  False, False],
             [False, False, True,  False, False],
             [False, False, False, False, False]]"

definition blinker_ends :: "bool list list" where
  "blinker_ends =
            [[False, False, False, False, False],
             [False, False, True,  False, False],
             [False, False, False, False, False],
             [False, False, True,  False, False],
             [False, False, False, False, False]]"

definition corner_3 :: "bool list list" where
  "corner_3 = [[True,  False, False],
               [False, False, False],
               [False, True,  True]]"

text \<open>
  Three runs of \<^verbatim>\<open>std::rand()\<close>; two of them return one number at every call. With \<open>rand_blinker\<close> the draws for the cells (2,1), (2,2)
  and (2,3) of a grid of side 5 (calls 11, 12 and 13) are 0 and all others are 50, so
  that \<^verbatim>\<open>initializeRandomly(30)\<close> on a fresh grid, the call of \<^verbatim>\<open>main\<close>, leaves a horizontal
  line of three live cells: \<open>seeded_blinker\<close>.
\<close>

definition rand_blinker :: "nat \<Rightarrow> nat" where
  "rand_blinker k = (if 11 \<le> k \<and> k \<le> 13 then 0 else 50)"

definition rand_201 :: "nat \<Rightarrow> nat" where
  "rand_201 k = 201"

definition rand_0 :: "nat \<Rightarrow> nat" where
  "rand_0 k = 0"

definition seeded_blinker :: Grid where
  "seeded_blinker = fst (Grid_initializeRandomly 30 rand_blinker (Grid_new 5) 0)"

section \<open>Facts about the buffers\<close>

lemma square_lines_nth:
  "square g \<Longrightarrow> i < length (lines g) \<Longrightarrow> length (cells_line (lines g ! i)) = length (lines g)"
  by (simp add: square_def list_all_length)

lemma square_buffer_nth:
  "square g \<Longrightarrow> i < length (lines g) \<Longrightarrow>
     length (cells_line (lines_buffer g ! i)) = length (lines g)"
  by (simp add: square_def list_all_length)

lemma square_buffer_length: "square g \<Longrightarrow> length (lines_buffer g) = length (lines g)"
  by (simp add: square_def)

lemma length_cells_line_Line_setAlive [simp]:
  "length (cells_line (Line_setAlive l xx a)) = length (cells_line l)"
  by (simp add: Line_setAlive_def)

lemma list_all_update_same_length:
  assumes "list_all (\<lambda>l. length (cells_line l) = n) ls"
  shows "list_all (\<lambda>l. length (cells_line l) = n) (ls[ii := Line_setAlive (ls ! ii) jj a])"
proof (cases "ii < length ls")
  case True
  then show ?thesis
    using assms by (simp add: list_all_length nth_list_update)
next
  case False
  then show ?thesis
    using assms by (simp add: not_less list_update_beyond)
qed

lemma square_buffer_setAlive: "square g \<Longrightarrow> square (buffer_setAlive g ii jj a)"
  by (simp add: square_def buffer_setAlive_def list_all_update_same_length)

lemma square_lines_setAlive: "square g \<Longrightarrow> square (lines_setAlive g ii jj a)"
  by (simp add: square_def lines_setAlive_def list_all_update_same_length)

lemma buffer_alive_buffer_setAlive:
  assumes "square g" "ii < length (lines g)" "jj < length (lines g)"
  shows "buffer_alive (buffer_setAlive g ii jj a) i j
           = (if i = ii \<and> j = jj then a else buffer_alive g i j)"
  using assms square_buffer_nth [of g ii] square_buffer_length [of g]
  by (simp add: buffer_alive_def buffer_setAlive_def Line_setAlive_def Line_at_def
      Cell_isAlive_def setAlive_def nth_list_update)

lemma lines_alive_lines_setAlive:
  assumes "square g" "ii < length (lines g)" "jj < length (lines g)"
  shows "lines_alive (lines_setAlive g ii jj a) i j
           = (if i = ii \<and> j = jj then a else lines_alive g i j)"
  using assms square_lines_nth [of g ii]
  by (simp add: lines_alive_def lines_setAlive_def Line_setAlive_def Line_at_def
      Cell_isAlive_def setAlive_def nth_list_update)

lemma buffer_alive_lines_setAlive [simp]:
  "buffer_alive (lines_setAlive g ii jj a) i j = buffer_alive g i j"
  by (simp add: buffer_alive_def)

lemma countAliveCells_lines:
  "lines g' = lines g \<Longrightarrow> countAliveCells g' i j = countAliveCells g i j"
  by (simp add: countAliveCells_def lines_alive_def)

lemma square_linesToBuffer_cell: "square g \<Longrightarrow> square (linesToBuffer_cell ii jj g)"
  by (simp add: linesToBuffer_cell_def Let_def square_buffer_setAlive)

lemma buffer_alive_linesToBuffer_cell:
  assumes "square g" "ii < length (lines g)" "jj < length (lines g)"
  shows "buffer_alive (linesToBuffer_cell ii jj g) i j
           = (if i = ii \<and> j = jj then classic_rule (buffer_alive g ii jj) (countAliveCells g ii jj)
              else buffer_alive g i j)"
  using assms
  by (simp add: linesToBuffer_cell_def Let_def buffer_alive_buffer_setAlive classic_rule_def)

lemma square_linesToBuffer_jj: "square g \<Longrightarrow> square (linesToBuffer_jj ii jj g)"
  by (induction ii jj g rule: linesToBuffer_jj.induct)
    (subst linesToBuffer_jj.simps, simp add: square_linesToBuffer_cell)

lemma buffer_alive_linesToBuffer_jj:
  "square g \<Longrightarrow> ii < length (lines g) \<Longrightarrow>
     buffer_alive (linesToBuffer_jj ii jj g) i j
       = (if i = ii \<and> jj \<le> j \<and> j < length (lines g)
          then classic_rule (buffer_alive g i j) (countAliveCells g i j)
          else buffer_alive g i j)"
proof (induction ii jj g rule: linesToBuffer_jj.induct)
  case (1 ii jj g)
  show ?case
  proof (cases "jj < length (lines g)")
    case False
    then show ?thesis
      by (subst linesToBuffer_jj.simps) auto
  next
    case True
    let ?g1 = "linesToBuffer_cell ii jj g"
    have sq: "square ?g1"
      using "1.prems" by (simp add: square_linesToBuffer_cell)
    have cnt: "countAliveCells ?g1 i j = countAliveCells g i j"
      by (rule countAliveCells_lines) simp
    have "ii < length (lines ?g1)"
      using "1.prems" by simp
    with True sq
    have "buffer_alive (linesToBuffer_jj ii (Suc jj) ?g1) i j
                = (if i = ii \<and> Suc jj \<le> j \<and> j < length (lines ?g1)
                   then classic_rule (buffer_alive ?g1 i j) (countAliveCells ?g1 i j)
                   else buffer_alive ?g1 i j)"
      by (rule "1.IH")
    then have ih: "buffer_alive (linesToBuffer_jj ii (Suc jj) ?g1) i j
                = (if i = ii \<and> Suc jj \<le> j \<and> j < length (lines g)
                   then classic_rule (buffer_alive ?g1 i j) (countAliveCells g i j)
                   else buffer_alive ?g1 i j)"
      by (simp only: cnt lines_linesToBuffer_cell)
    have step: "linesToBuffer_jj ii jj g = linesToBuffer_jj ii (Suc jj) ?g1"
      using True by (subst linesToBuffer_jj.simps) simp
    have cell: "buffer_alive ?g1 i j
       = (if i = ii \<and> j = jj then classic_rule (buffer_alive g ii jj) (countAliveCells g ii jj)
          else buffer_alive g i j)"
      using "1.prems" True by (rule buffer_alive_linesToBuffer_cell)
    show ?thesis
      using True by (simp only: step ih cell) auto
  qed
qed

lemma lines_linesToBuffer_ii [simp]: "lines (linesToBuffer_ii ii g) = lines g"
  by (induction ii g rule: linesToBuffer_ii.induct) (subst linesToBuffer_ii.simps, simp)

lemma square_linesToBuffer_ii: "square g \<Longrightarrow> square (linesToBuffer_ii ii g)"
  by (induction ii g rule: linesToBuffer_ii.induct)
    (subst linesToBuffer_ii.simps, simp add: square_linesToBuffer_jj)

lemma buffer_alive_linesToBuffer_ii:
  "square g \<Longrightarrow>
     buffer_alive (linesToBuffer_ii ii g) i j
       = (if ii \<le> i \<and> i < length (lines g) \<and> j < length (lines g)
          then classic_rule (buffer_alive g i j) (countAliveCells g i j)
          else buffer_alive g i j)"
proof (induction ii g rule: linesToBuffer_ii.induct)
  case (1 ii g)
  show ?case
  proof (cases "ii < length (lines g)")
    case False
    then show ?thesis
      by (subst linesToBuffer_ii.simps) auto
  next
    case True
    let ?g1 = "linesToBuffer_jj ii 0 g"
    have sq: "square ?g1"
      using "1.prems" by (simp add: square_linesToBuffer_jj)
    have cnt: "countAliveCells ?g1 i j = countAliveCells g i j"
      by (rule countAliveCells_lines) simp
    have "buffer_alive (linesToBuffer_ii (Suc ii) ?g1) i j
                = (if Suc ii \<le> i \<and> i < length (lines ?g1) \<and> j < length (lines ?g1)
                   then classic_rule (buffer_alive ?g1 i j) (countAliveCells ?g1 i j)
                   else buffer_alive ?g1 i j)"
      using True sq by (rule "1.IH")
    then have ih: "buffer_alive (linesToBuffer_ii (Suc ii) ?g1) i j
                = (if Suc ii \<le> i \<and> i < length (lines g) \<and> j < length (lines g)
                   then classic_rule (buffer_alive ?g1 i j) (countAliveCells g i j)
                   else buffer_alive ?g1 i j)"
      by (simp only: cnt lines_linesToBuffer_jj)
    have step: "linesToBuffer_ii ii g = linesToBuffer_ii (Suc ii) ?g1"
      using True by (subst linesToBuffer_ii.simps) simp
    have inner: "buffer_alive ?g1 i j
       = (if i = ii \<and> 0 \<le> j \<and> j < length (lines g)
          then classic_rule (buffer_alive g i j) (countAliveCells g i j)
          else buffer_alive g i j)"
      using "1.prems" True by (rule buffer_alive_linesToBuffer_jj)
    show ?thesis
      using True by (simp only: step ih inner) auto
  qed
qed

lemma lines_buffer_linesToBuffer_length:
  "square g \<Longrightarrow> square (linesToBuffer g) \<and> lines (linesToBuffer g) = lines g"
  by (simp add: linesToBuffer_def square_linesToBuffer_ii)

lemma buffer_alive_linesToBuffer:
  "square g \<Longrightarrow> i < length (lines g) \<Longrightarrow> j < length (lines g) \<Longrightarrow>
     buffer_alive (linesToBuffer g) i j = classic_rule (buffer_alive g i j) (countAliveCells g i j)"
  by (simp add: linesToBuffer_def buffer_alive_linesToBuffer_ii)

lemma lines_buffer_bufferToLines_cell [simp]:
  "lines_buffer (bufferToLines_cell ii jj g) = lines_buffer g"
  by (simp add: bufferToLines_cell_def)

lemma square_bufferToLines_cell: "square g \<Longrightarrow> square (bufferToLines_cell ii jj g)"
  by (simp add: bufferToLines_cell_def square_lines_setAlive)

lemma buffer_alive_lines_buffer:
  "lines_buffer g' = lines_buffer g \<Longrightarrow> buffer_alive g' i j = buffer_alive g i j"
  by (simp add: buffer_alive_def)

lemma lines_alive_bufferToLines_cell:
  assumes "square g" "ii < length (lines g)" "jj < length (lines g)"
  shows "lines_alive (bufferToLines_cell ii jj g) i j
           = (if i = ii \<and> j = jj then buffer_alive g ii jj else lines_alive g i j)"
  using assms by (simp add: bufferToLines_cell_def lines_alive_lines_setAlive)

lemma lines_buffer_bufferToLines_jj [simp]:
  "lines_buffer (bufferToLines_jj ii jj g) = lines_buffer g"
  by (induction ii jj g rule: bufferToLines_jj.induct) (subst bufferToLines_jj.simps, simp)

lemma square_bufferToLines_jj: "square g \<Longrightarrow> square (bufferToLines_jj ii jj g)"
  by (induction ii jj g rule: bufferToLines_jj.induct)
    (subst bufferToLines_jj.simps, simp add: square_bufferToLines_cell)

lemma lines_alive_bufferToLines_jj:
  "square g \<Longrightarrow> ii < length (lines g) \<Longrightarrow>
     lines_alive (bufferToLines_jj ii jj g) i j
       = (if i = ii \<and> jj \<le> j \<and> j < length (lines g) then buffer_alive g i j
          else lines_alive g i j)"
proof (induction ii jj g rule: bufferToLines_jj.induct)
  case (1 ii jj g)
  show ?case
  proof (cases "jj < length (lines g)")
    case False
    then show ?thesis
      by (subst bufferToLines_jj.simps) auto
  next
    case True
    let ?g1 = "bufferToLines_cell ii jj g"
    have sq: "square ?g1"
      using "1.prems" by (simp add: square_bufferToLines_cell)
    have buf: "buffer_alive ?g1 i j = buffer_alive g i j"
      by (rule buffer_alive_lines_buffer) simp
    have "ii < length (lines ?g1)"
      using "1.prems" by simp
    with True sq
    have "lines_alive (bufferToLines_jj ii (Suc jj) ?g1) i j
            = (if i = ii \<and> Suc jj \<le> j \<and> j < length (lines ?g1) then buffer_alive ?g1 i j
               else lines_alive ?g1 i j)"
      by (rule "1.IH")
    then have ih: "lines_alive (bufferToLines_jj ii (Suc jj) ?g1) i j
            = (if i = ii \<and> Suc jj \<le> j \<and> j < length (lines g) then buffer_alive g i j
               else lines_alive ?g1 i j)"
      by (simp only: buf length_lines_bufferToLines_cell)
    have step: "bufferToLines_jj ii jj g = bufferToLines_jj ii (Suc jj) ?g1"
      using True by (subst bufferToLines_jj.simps) simp
    have cell: "lines_alive ?g1 i j
       = (if i = ii \<and> j = jj then buffer_alive g ii jj else lines_alive g i j)"
      using "1.prems" True by (rule lines_alive_bufferToLines_cell)
    show ?thesis
      using True by (simp only: step ih cell) auto
  qed
qed

lemma length_lines_bufferToLines_ii [simp]:
  "length (lines (bufferToLines_ii ii g)) = length (lines g)"
  by (induction ii g rule: bufferToLines_ii.induct) (subst bufferToLines_ii.simps, simp)

lemma lines_buffer_bufferToLines_ii [simp]:
  "lines_buffer (bufferToLines_ii ii g) = lines_buffer g"
  by (induction ii g rule: bufferToLines_ii.induct) (subst bufferToLines_ii.simps, simp)

lemma square_bufferToLines_ii: "square g \<Longrightarrow> square (bufferToLines_ii ii g)"
  by (induction ii g rule: bufferToLines_ii.induct)
    (subst bufferToLines_ii.simps, simp add: square_bufferToLines_jj)

lemma lines_alive_bufferToLines_ii:
  "square g \<Longrightarrow>
     lines_alive (bufferToLines_ii ii g) i j
       = (if ii \<le> i \<and> i < length (lines g) \<and> j < length (lines g) then buffer_alive g i j
          else lines_alive g i j)"
proof (induction ii g rule: bufferToLines_ii.induct)
  case (1 ii g)
  show ?case
  proof (cases "ii < length (lines g)")
    case False
    then show ?thesis
      by (subst bufferToLines_ii.simps) auto
  next
    case True
    let ?g1 = "bufferToLines_jj ii 0 g"
    have sq: "square ?g1"
      using "1.prems" by (simp add: square_bufferToLines_jj)
    have buf: "buffer_alive ?g1 i j = buffer_alive g i j"
      by (rule buffer_alive_lines_buffer) simp
    have "lines_alive (bufferToLines_ii (Suc ii) ?g1) i j
            = (if Suc ii \<le> i \<and> i < length (lines ?g1) \<and> j < length (lines ?g1)
               then buffer_alive ?g1 i j else lines_alive ?g1 i j)"
      using True sq by (rule "1.IH")
    then have ih: "lines_alive (bufferToLines_ii (Suc ii) ?g1) i j
            = (if Suc ii \<le> i \<and> i < length (lines g) \<and> j < length (lines g)
               then buffer_alive g i j else lines_alive ?g1 i j)"
      by (simp only: buf length_lines_bufferToLines_jj)
    have step: "bufferToLines_ii ii g = bufferToLines_ii (Suc ii) ?g1"
      using True by (subst bufferToLines_ii.simps) simp
    have inner: "lines_alive ?g1 i j
       = (if i = ii \<and> 0 \<le> j \<and> j < length (lines g) then buffer_alive g i j
          else lines_alive g i j)"
      using "1.prems" True by (rule lines_alive_bufferToLines_jj)
    show ?thesis
      using True by (simp only: step ih inner) auto
  qed
qed

lemma square_go: "square g \<Longrightarrow> square (go g)"
  by (simp add: go_def bufferToLines_def linesToBuffer_def square_bufferToLines_ii
      square_linesToBuffer_ii)

lemma length_lines_go [simp]: "length (lines (go g)) = length (lines g)"
  by (simp add: go_def bufferToLines_def linesToBuffer_def)

lemma lines_buffer_go: "lines_buffer (go g) = lines_buffer (linesToBuffer g)"
  by (simp add: go_def bufferToLines_def)

lemma buffer_alive_go:
  "square g \<Longrightarrow> i < length (lines g) \<Longrightarrow> j < length (lines g) \<Longrightarrow>
     buffer_alive (go g) i j = classic_rule (buffer_alive g i j) (countAliveCells g i j)"
  using buffer_alive_lines_buffer [OF lines_buffer_go, of g i j]
  by (simp add: buffer_alive_linesToBuffer)

lemma lines_alive_go:
  assumes "square g" "i < length (lines g)" "j < length (lines g)"
  shows "lines_alive (go g) i j = classic_rule (buffer_alive g i j) (countAliveCells g i j)"
proof -
  have sq: "square (linesToBuffer g)"
    using assms(1) by (simp add: linesToBuffer_def square_linesToBuffer_ii)
  have len: "length (lines (linesToBuffer g)) = length (lines g)"
    by (simp add: linesToBuffer_def)
  have "lines_alive (go g) i j = buffer_alive (linesToBuffer g) i j"
    using assms(2,3) len
    by (simp add: go_def bufferToLines_def lines_alive_bufferToLines_ii [OF sq])
  then show ?thesis
    using assms by (simp add: buffer_alive_linesToBuffer)
qed

lemma Cell_eqI: "alive (c::Cell) = alive d \<Longrightarrow> c = d"
  by simp

lemma Line_eqI: "cells_line (l::Line) = cells_line m \<Longrightarrow> l = m"
  by simp

lemma buffers_equal:
  assumes sq: "square g"
    and eq: "\<And>i j. i < length (lines g) \<Longrightarrow> j < length (lines g) \<Longrightarrow>
                buffer_alive g i j = lines_alive g i j"
  shows "lines_buffer g = lines g"
proof (rule nth_equalityI)
  show "length (lines_buffer g) = length (lines g)"
    using sq by (rule square_buffer_length)
next
  fix i assume "i < length (lines_buffer g)"
  then have i: "i < length (lines g)"
    using sq by (simp add: square_buffer_length)
  have "cells_line (lines_buffer g ! i) = cells_line (lines g ! i)"
  proof (rule nth_equalityI)
    show "length (cells_line (lines_buffer g ! i)) = length (cells_line (lines g ! i))"
      using sq i by (simp add: square_buffer_nth square_lines_nth)
  next
    fix j assume "j < length (cells_line (lines_buffer g ! i))"
    then have "j < length (lines g)"
      using sq i by (simp add: square_buffer_nth)
    then have "buffer_alive g i j = lines_alive g i j"
      using i by (rule eq [rotated])
    then show "cells_line (lines_buffer g ! i) ! j = cells_line (lines g ! i) ! j"
      by (simp add: buffer_alive_def lines_alive_def Line_at_def Cell_isAlive_def)
  qed
  then show "lines_buffer g ! i = lines g ! i"
    by simp
qed

lemma lines_buffer_go_eq: "square g \<Longrightarrow> lines_buffer (go g) = lines (go g)"
proof (rule buffers_equal)
  assume sq: "square g"
  then show "square (go g)"
    by (rule square_go)
  fix i j assume "i < length (lines (go g))" "j < length (lines (go g))"
  then show "buffer_alive (go g) i j = lines_alive (go g) i j"
    using sq by (simp add: buffer_alive_go lines_alive_go)
qed

lemma go_classic_rule_when_buffers_agree:
  "square g \<Longrightarrow> lines_buffer g = lines g \<Longrightarrow> i < Grid_size g \<Longrightarrow> j < Grid_size g \<Longrightarrow>
     lines_alive (go g) i j = classic_rule (lines_alive g i j) (countAliveCells g i j)"
proof -
  assume sq: "square g" and eq: "lines_buffer g = lines g"
    and i: "i < Grid_size g" and j: "j < Grid_size g"
  have "buffer_alive g i j = lines_alive g i j"
    using eq by (simp add: buffer_alive_def lines_alive_def)
  then show ?thesis
    using sq i j by (simp add: lines_alive_go Grid_size_def)
qed

lemma fst_isAlive: "fst (isAlive g xx yy) = lines_alive g xx yy"
  by (simp add: isAlive_def lines_alive_def)

lemma alive_nth_lines: "alive (cells_line (lines g ! i) ! j) = lines_alive g i j"
  by (simp add: lines_alive_def Line_at_def Cell_isAlive_def)

lemma lines_go_tabulate:
  assumes sq: "square g"
  shows "lines (go g)
           = map (\<lambda>i. Line_of (map (\<lambda>j. classic_rule (buffer_alive g i j) (countAliveCells g i j))
                                 [0..<length (lines g)]))
               [0..<length (lines g)]"
proof (rule nth_equalityI)
  show "length (lines (go g)) = length (map (\<lambda>i. Line_of (map (\<lambda>j. classic_rule (buffer_alive g i j)
       (countAliveCells g i j)) [0..<length (lines g)])) [0..<length (lines g)])"
    by simp
next
  fix i assume "i < length (lines (go g))"
  then have i: "i < length (lines g)"
    by simp
  have len: "length (cells_line (lines (go g) ! i)) = length (lines g)"
    using square_lines_nth [OF square_go [OF sq], of i] i by simp
  have "cells_line (lines (go g) ! i)
          = map (\<lambda>j. Cell_new (classic_rule (buffer_alive g i j) (countAliveCells g i j)))
              [0..<length (lines g)]"
  proof (rule nth_equalityI)
    show "length (cells_line (lines (go g) ! i))
            = length (map (\<lambda>j. Cell_new (classic_rule (buffer_alive g i j) (countAliveCells g i j)))
                [0..<length (lines g)])"
      using len by simp
  next
    fix j assume "j < length (cells_line (lines (go g) ! i))"
    then have j: "j < length (lines g)"
      using len by simp
    have "alive (cells_line (lines (go g) ! i) ! j)
            = classic_rule (buffer_alive g i j) (countAliveCells g i j)"
      using sq i j by (simp add: alive_nth_lines lines_alive_go)
    then show "cells_line (lines (go g) ! i) ! j
       = map (\<lambda>j. Cell_new (classic_rule (buffer_alive g i j) (countAliveCells g i j)))
           [0..<length (lines g)] ! j"
      using j by (simp add: Cell_new_def)
  qed
  then show "lines (go g) ! i
     = map (\<lambda>i. Line_of (map (\<lambda>j. classic_rule (buffer_alive g i j) (countAliveCells g i j))
                            [0..<length (lines g)])) [0..<length (lines g)] ! i"
    using i by (simp add: Line_of_def)
qed

section \<open>Facts about neighbour counting\<close>

lemma torus_left: "i < n \<Longrightarrow> nat ((int i + - 1) mod int n) = (if i = 0 then n - 1 else i - 1)"
proof (cases "i = 0")
  case True
  assume "i < n"
  then have "(- 1) mod int n = int n - 1"
    by (simp add: zmod_minus1)
  then show ?thesis
    using True by simp
next
  case False
  assume "i < n"
  then have "(int i - 1) mod int n = int i - 1"
    using False by (intro mod_pos_pos_trivial) simp_all
  then show ?thesis
    using False by simp
qed

lemma torus_right: "i < n \<Longrightarrow> nat ((int i + 1) mod int n) = (if i = n - 1 then 0 else i + 1)"
proof (cases "i = n - 1")
  case True
  assume "i < n"
  then have "int i + 1 = int n"
    using True by simp
  then show ?thesis
    using True by simp
next
  case False
  assume "i < n"
  then have "(int i + 1) mod int n = int i + 1"
    using False by (intro mod_pos_pos_trivial) simp_all
  then show ?thesis
    using False by simp
qed

lemma torus_neighbours_eq:
  assumes "i < n" "j < n"
  shows "torus_neighbours n i j =
    (let xl = (if i = 0 then n - 1 else i - 1); xr = (if i = n - 1 then 0 else i + 1);
         yl = (if j = 0 then n - 1 else j - 1); yr = (if j = n - 1 then 0 else j + 1)
     in [(xl, yl), (xl, j), (xl, yr), (i, yl), (i, yr), (xr, yl), (xr, j), (xr, yr)])"
proof -
  have l: "\<And>i. i < n \<Longrightarrow> nat ((int i - 1) mod int n) = (if i = 0 then n - 1 else i - 1)"
    using torus_left by simp
  have "torus_neighbours n i j =
     [(nat ((int i - 1) mod int n), nat ((int j - 1) mod int n)),
      (nat ((int i - 1) mod int n), nat ((int j) mod int n)),
      (nat ((int i - 1) mod int n), nat ((int j + 1) mod int n)),
      (nat ((int i) mod int n), nat ((int j - 1) mod int n)),
      (nat ((int i) mod int n), nat ((int j + 1) mod int n)),
      (nat ((int i + 1) mod int n), nat ((int j - 1) mod int n)),
      (nat ((int i + 1) mod int n), nat ((int j) mod int n)),
      (nat ((int i + 1) mod int n), nat ((int j + 1) mod int n))]"
    by (simp add: torus_neighbours_def)
  then show ?thesis
    using assms by (simp only: l torus_right Let_def) simp
qed

lemma of_bool_sum_le_8:
  "(of_bool a + of_bool b + of_bool c + of_bool d + of_bool e + of_bool f + of_bool g
      + of_bool h :: nat) \<le> 8"
proof -
  have le: "(of_bool x :: nat) \<le> 1" for x
    by simp
  show ?thesis
    using le [of a] le [of b] le [of c] le [of d] le [of e] le [of f] le [of g] le [of h]
    by linarith
qed

lemma countAliveCells_le_8: "countAliveCells g i j \<le> 8"
  by (simp only: countAliveCells_def Let_def of_bool_sum_le_8)

lemma length_filter_Cons_of_bool:
  "length (filter P (x # xs)) = of_bool (P x) + length (filter P xs)"
  by simp

lemma countAliveCells_filter:
  "countAliveCells g i j
     = length (filter (\<lambda>(x, y). lines_alive g x y)
         (let xl = (if i = 0 then length (lines g) - 1 else i - 1);
              xr = (if i = length (lines g) - 1 then 0 else i + 1);
              yl = (if j = 0 then length (lines g) - 1 else j - 1);
              yr = (if j = length (lines g) - 1 then 0 else j + 1)
          in [(xl, yl), (xl, j), (xl, yr), (i, yl), (i, yr), (xr, yl), (xr, j), (xr, yr)]))"
  by (simp only: countAliveCells_def Let_def length_filter_Cons_of_bool filter.simps
      list.size prod.case) simp

lemma countAliveCells_corner:
  "lines_alive g (length (lines g) - 1) (length (lines g) - 1) \<Longrightarrow> 1 \<le> countAliveCells g 0 0"
proof -
  assume a: "lines_alive g (length (lines g) - 1) (length (lines g) - 1)"
  define n where "n = length (lines g)"
  define r where "r = (if 0 = n - 1 then 0 else (0::nat) + 1)"
  have "countAliveCells g 0 0
          = of_bool (lines_alive g 0 (n - 1)) + of_bool (lines_alive g 0 r)
          + of_bool (lines_alive g (n - 1) 0) + of_bool (lines_alive g (n - 1) (n - 1))
          + of_bool (lines_alive g (n - 1) r) + of_bool (lines_alive g r 0)
          + of_bool (lines_alive g r (n - 1)) + of_bool (lines_alive g r r)"
    by (simp only: countAliveCells_def Let_def n_def r_def if_True simp_thms)
  then show ?thesis
    using a by (simp add: n_def)
qed

section \<open>Facts about seeding\<close>

lemma log10_100: "log 10 100 = (2::real)"
proof -
  have "log 10 ((10::real) ^ 2) = 2"
    by (subst log_nat_power) simp_all
  then show ?thesis by simp
qed

lemma rndBool_100: "rndBool 100 rand k = (rand k mod 1001 < 100, k + 1)"
  by (simp add: rndBool_def double_to_int_def log10_100 Let_def)

lemma floor_log10_30: "\<lfloor>log 10 30 :: real\<rfloor> = 1"
proof -
  have "(1::real) \<le> log 10 30"
    by (subst le_log_iff) simp_all
  moreover have "log 10 30 < (2::real)"
    by (subst log_less_iff) simp_all
  ultimately show ?thesis
    by linarith
qed

lemma rndBool_30: "rndBool 30 rand k = (rand k mod 101 < 30, k + 1)"
proof -
  have f: "\<lfloor>log 10 30 + 1 :: real\<rfloor> = 2"
    using floor_log10_30 by simp
  have p: "(0::real) \<le> log 10 30 + 1"
    using floor_log10_30 by linarith
  show ?thesis
    by (simp add: rndBool_def double_to_int_def Let_def f p)
qed

lemma length_cells_initializeRandomly [simp]:
  "length (fst (cells_initializeRandomly probability rand cells k)) = length cells"
  by (induction cells arbitrary: k) (simp_all add: split_beta Let_def)

lemma length_Line_initializeRandomly [simp]:
  "length (cells_line (fst (Line_initializeRandomly probability rand l k))) = length (cells_line l)"
  by (simp add: Line_initializeRandomly_def split_beta)

lemma length_lines_initializeRandomly [simp]:
  "length (fst (lines_initializeRandomly probability rand ls k)) = length ls"
  by (induction ls arbitrary: k) (simp_all add: split_beta Let_def)

lemma list_all_lines_initializeRandomly:
  "list_all (\<lambda>l. length (cells_line l) = n) ls \<Longrightarrow>
     list_all (\<lambda>l. length (cells_line l) = n) (fst (lines_initializeRandomly probability rand ls k))"
  by (induction ls arbitrary: k) (simp_all add: split_beta Let_def)

lemma lines_buffer_Grid_initializeRandomly [simp]:
  "lines_buffer (fst (Grid_initializeRandomly probability rand g k)) = lines_buffer g"
  by (simp add: Grid_initializeRandomly_def split_beta)

lemma length_lines_Grid_initializeRandomly [simp]:
  "length (lines (fst (Grid_initializeRandomly probability rand g k))) = length (lines g)"
  by (simp add: Grid_initializeRandomly_def split_beta)

lemma square_Grid_initializeRandomly:
  "square g \<Longrightarrow> square (fst (Grid_initializeRandomly probability rand g k))"
  by (simp add: square_def Grid_initializeRandomly_def split_beta list_all_lines_initializeRandomly)

section \<open>Fresh, reachable and dead grids\<close>

lemma square_Grid_new: "square (Grid_new n)"
  by (simp add: square_def Grid_new_def Line_new_def list_all_length)

lemma lines_alive_Grid_new:
  "xx < n \<Longrightarrow> yy < n \<Longrightarrow> lines_alive (Grid_new n) xx yy = False"
  by (simp add: lines_alive_def Grid_new_def Line_new_def Line_at_def Cell_isAlive_def Cell_new_def)

lemma reachable_square: "reachable g \<Longrightarrow> square g"
  by (induction rule: reachable.induct)
    (simp_all add: square_Grid_new square_Grid_initializeRandomly square_go isAlive_def)

lemma all_dead_iff:
  "square g \<Longrightarrow>
     all_dead g = (\<forall>i<length (lines g). \<forall>j<length (lines g). \<not> lines_alive g i j)"
  by (auto simp add: all_dead_def cells_all_dead_def list_all_length lines_alive_def Line_at_def
      square_lines_nth)

lemma countAliveCells_all_dead:
  assumes "square g" "all_dead g" "i < length (lines g)" "j < length (lines g)"
  shows "countAliveCells g i j = 0"
proof -
  define xl where "xl = (if i = 0 then length (lines g) - 1 else i - 1)"
  define xr where "xr = (if i = length (lines g) - 1 then 0 else i + 1)"
  define yl where "yl = (if j = 0 then length (lines g) - 1 else j - 1)"
  define yr where "yr = (if j = length (lines g) - 1 then 0 else j + 1)"
  have range: "xl < length (lines g)" "xr < length (lines g)"
    "yl < length (lines g)" "yr < length (lines g)"
    using assms(3,4) by (auto simp add: xl_def xr_def yl_def yr_def)
  have dead: "\<not> lines_alive g x y" if "x < length (lines g)" "y < length (lines g)" for x y
    using assms(1,2) that by (simp add: all_dead_iff)
  have "countAliveCells g i j
          = of_bool (lines_alive g i yl) + of_bool (lines_alive g i yr)
          + of_bool (lines_alive g xl j) + of_bool (lines_alive g xl yl)
          + of_bool (lines_alive g xl yr) + of_bool (lines_alive g xr j)
          + of_bool (lines_alive g xr yl) + of_bool (lines_alive g xr yr)"
    by (simp only: countAliveCells_def Let_def xl_def xr_def yl_def yr_def)
  then show ?thesis
    using range assms(3,4) by (simp add: dead)
qed

lemma classic_rule_0 [simp]: "classic_rule a 0 = False"
  by (simp add: classic_rule_def)

lemma all_dead_go:
  assumes "square g" "all_dead g"
  shows "all_dead (go g)"
proof -
  have "\<not> lines_alive (go g) i j" if "i < length (lines g)" "j < length (lines g)" for i j
    using assms that by (simp add: lines_alive_go countAliveCells_all_dead)
  then show ?thesis
    using assms(1) by (simp add: all_dead_iff [OF square_go])
qed

section \<open>The seeded blinker, generation by generation\<close>

text \<open>
  After the seeding the hidden buffer is still all dead. In the first generation the
  middle cell of the line has two live neighbours and is dead in the hidden buffer, so it
  is not written; only the cells above and below the middle come alive. In the second
  generation these two die. With both buffers holding the line, the same step gives the
  vertical line.
\<close>

lemma replicate_5: "replicate 5 x = [x, x, x, x, x]"
  by (simp add: numeral_eq_Suc)

lemma seeded_blinker_eq: "seeded_blinker = Grid_of blinker_horizontal dead_5"
  by (simp add: seeded_blinker_def Grid_initializeRandomly_def Grid_new_def Line_new_def
      Line_initializeRandomly_def rndBool_30 rand_blinker_def setAlive_def Cell_new_def
      replicate_5 Grid_of_def Line_of_def blinker_horizontal_def dead_5_def)

lemma upt_5: "[0..<5] = [0, 1, 2, 3, 4]"
  by (simp add: upt_rec)

lemma square_seeded: "square (Grid_of blinker_horizontal dead_5)"
  by (simp add: square_def Grid_of_def Line_of_def blinker_horizontal_def dead_5_def)

lemma go_seeded_lines: "lines (go (Grid_of blinker_horizontal dead_5)) = map Line_of blinker_ends"
  by (simp add: lines_go_tabulate [OF square_seeded])
     (simp add: Grid_of_def upt_5 blinker_horizontal_def dead_5_def blinker_ends_def
       countAliveCells_def buffer_alive_def lines_alive_def Line_of_def Line_at_def
       Cell_isAlive_def Cell_new_def classic_rule_def)

lemma go_seeded: "go (Grid_of blinker_horizontal dead_5) = Grid_of blinker_ends blinker_ends"
  using lines_buffer_go_eq [OF square_seeded] go_seeded_lines
  by (simp add: Grid_of_def)

lemma square_ends: "square (Grid_of blinker_ends blinker_ends)"
  by (simp add: square_def Grid_of_def Line_of_def blinker_ends_def)

lemma go_ends_lines: "lines (go (Grid_of blinker_ends blinker_ends)) = map Line_of dead_5"
  by (simp add: lines_go_tabulate [OF square_ends])
     (simp add: Grid_of_def upt_5 blinker_ends_def dead_5_def
       countAliveCells_def buffer_alive_def lines_alive_def Line_of_def Line_at_def
       Cell_isAlive_def Cell_new_def classic_rule_def)

lemma square_in_sync: "square (Grid_of blinker_horizontal blinker_horizontal)"
  by (simp add: square_def Grid_of_def Line_of_def blinker_horizontal_def)

lemma go_in_sync_lines:
  "lines (go (Grid_of blinker_horizontal blinker_horizontal)) = map Line_of blinker_vertical"
  by (simp add: lines_go_tabulate [OF square_in_sync])
     (simp add: Grid_of_def upt_5 blinker_horizontal_def blinker_vertical_def
       countAliveCells_def buffer_alive_def lines_alive_def Line_of_def Line_at_def
       Cell_isAlive_def Cell_new_def classic_rule_def)

section \<open>The claims\<close>

text \<open>
  Claim C1. For every grid state and every coordinate, one call of \<^verbatim>\<open>go()\<close> makes the drawn
  cell alive exactly when the classic rule, applied to the drawn buffer before the call,
  says so; in particular a cell that is alive in the drawn buffer and has 2 or 3 live
  neighbours stays alive.

  The code tests the hidden buffer for the state of the cell (\<open>lines_alive_go\<close>), and the
  two buffers differ after seeding. On \<open>seeded_blinker\<close>, the grid that
  \<^verbatim>\<open>Grid(5)\<close> and \<^verbatim>\<open>initializeRandomly(30)\<close> leave with the draws \<open>rand_blinker\<close>, the cell (2,2)
  is alive and has exactly 2 live neighbours, and it is dead after \<^verbatim>\<open>go()\<close>. Where the
  buffers agree the code follows the rule (\<open>go_classic_rule_when_buffers_agree\<close>).
\<close>

theorem go_after_seeding_kills_cell_with_two_neighbours:
  "fst (isAlive seeded_blinker 2 2) = True
   \<and> countAliveCells seeded_blinker 2 2 = 2
   \<and> fst (isAlive (go seeded_blinker) 2 2) = False"
proof -
  have a: "lines_alive (Grid_of blinker_horizontal dead_5) 2 2 = True"
    by (simp add: lines_alive_def Grid_of_def Line_of_def Line_at_def Cell_isAlive_def
        Cell_new_def blinker_horizontal_def)
  have c: "countAliveCells (Grid_of blinker_horizontal dead_5) 2 2 = 2"
    by (simp add: countAliveCells_def lines_alive_def Grid_of_def Line_of_def Line_at_def
        Cell_isAlive_def Cell_new_def blinker_horizontal_def)
  have b: "buffer_alive (Grid_of blinker_horizontal dead_5) 2 2 = False"
    by (simp add: buffer_alive_def Grid_of_def Line_of_def Line_at_def Cell_isAlive_def
        Cell_new_def dead_5_def)
  have n: "length (lines (Grid_of blinker_horizontal dead_5)) = 5"
    by (simp add: Grid_of_def blinker_horizontal_def)
  have "lines_alive (go (Grid_of blinker_horizontal dead_5)) 2 2
          = classic_rule (buffer_alive (Grid_of blinker_horizontal dead_5) 2 2)
              (countAliveCells (Grid_of blinker_horizontal dead_5) 2 2)"
    using square_seeded by (rule lines_alive_go) (simp_all add: n)
  then have "lines_alive (go (Grid_of blinker_horizontal dead_5)) 2 2 = False"
    by (simp add: b c classic_rule_def)
  then show ?thesis
    using a c by (simp add: seeded_blinker_eq fst_isAlive)
qed

text \<open>
  Claim C2. For every probability \<open>p\<close> in [0,100], \<^verbatim>\<open>initializeRandomly(p)\<close> sets each cell
  alive with probability exactly \<open>p/100\<close>; in particular seeding with 100 gives a grid
  that is all alive.

  At probability 100 the source computes \<^verbatim>\<open>pow10\<close> as 1001 and answers true exactly when
  the draw modulo 1001 is below 100 (\<open>rndBool_100\<close>). With the draw 201 the only cell of a
  grid of side 1 is dead after seeding with 100.
\<close>

theorem seed_100_leaves_a_cell_dead:
  "rndBool 100 rand_201 0 = (False, 1)
   \<and> fst (isAlive (fst (Grid_initializeRandomly 100 rand_201 (Grid_new 1) 0)) 0 0) = False"
  by (simp add: rndBool_100 rand_201_def Grid_initializeRandomly_def Grid_new_def Line_new_def
      Line_initializeRandomly_def isAlive_def Line_at_def Cell_isAlive_def setAlive_def
      Cell_new_def)

text \<open>
  Claim C3. For every cell \<open>(i, j)\<close> of a grid of side \<open>N\<close>, the count that
  \<^verbatim>\<open>countAliveCells\<close> returns is the number of live cells of the drawn buffer among the
  eight neighbours of \<open>(i, j)\<close> on the torus, where \<open>i - 1\<close> wraps to \<open>N - 1\<close> at 0 and
  \<open>i + 1\<close> wraps to 0 at \<open>N - 1\<close>, and the same for \<open>j\<close>. The count is at most 8, and the
  cell \<open>(N - 1, N - 1)\<close> is the neighbour of \<open>(0, 0)\<close> at the diagonal offset \<open>(-1, -1)\<close>: when
  it is alive, the count of \<open>(0, 0)\<close> is at least 1.
\<close>

theorem countAliveCells_torus:
  "square g \<Longrightarrow> i < Grid_size g \<Longrightarrow> j < Grid_size g \<Longrightarrow>
     countAliveCells g i j
       = length (filter (\<lambda>(x, y). lines_alive g x y) (torus_neighbours (Grid_size g) i j))
     \<and> countAliveCells g i j \<le> 8
     \<and> (nat ((int 0 + - 1) mod int (Grid_size g)), nat ((int 0 + - 1) mod int (Grid_size g)))
         = (Grid_size g - 1, Grid_size g - 1)
     \<and> (Grid_size g - 1, Grid_size g - 1) \<in> set (torus_neighbours (Grid_size g) 0 0)
     \<and> (lines_alive g (Grid_size g - 1) (Grid_size g - 1) \<longrightarrow> 1 \<le> countAliveCells g 0 0)"
proof -
  assume sq: "square g" and i: "i < Grid_size g" and j: "j < Grid_size g"
  have 0: "0 < Grid_size g"
    using i by simp
  have 1: "countAliveCells g i j
      = length (filter (\<lambda>(x, y). lines_alive g x y) (torus_neighbours (Grid_size g) i j))"
    using torus_neighbours_eq [OF i j] by (simp only: countAliveCells_filter Grid_size_def)
  have 2: "(Grid_size g - 1, Grid_size g - 1) \<in> set (torus_neighbours (Grid_size g) 0 0)"
    by (simp add: torus_neighbours_eq [OF 0 0] Let_def)
  have 3: "1 \<le> countAliveCells g 0 0" if "lines_alive g (Grid_size g - 1) (Grid_size g - 1)"
    using that unfolding Grid_size_def by (rule countAliveCells_corner)
  have 4: "(nat ((int 0 + - 1) mod int (Grid_size g)), nat ((int 0 + - 1) mod int (Grid_size g)))
         = (Grid_size g - 1, Grid_size g - 1)"
    using torus_left [OF 0] by simp
  show ?thesis
    using 1 2 3 4 countAliveCells_le_8 [of g i j] by blast
qed

theorem countAliveCells_torus_witness:
  "square (Grid_of corner_3 corner_3) \<and> 0 < Grid_size (Grid_of corner_3 corner_3)
   \<and> countAliveCells (Grid_of corner_3 corner_3) 0 0 = 2
   \<and> length (filter (\<lambda>(x, y). lines_alive (Grid_of corner_3 corner_3) x y)
        (torus_neighbours 3 0 0)) = 2
   \<and> (2, 2) \<in> set (torus_neighbours 3 0 0)
   \<and> lines_alive (Grid_of corner_3 corner_3) 2 2"
proof -
  have sq: "square (Grid_of corner_3 corner_3)"
    by (simp add: square_def Grid_of_def Line_of_def corner_3_def)
  have n: "Grid_size (Grid_of corner_3 corner_3) = 3"
    by (simp add: Grid_size_def Grid_of_def corner_3_def)
  have c: "countAliveCells (Grid_of corner_3 corner_3) 0 0 = 2"
    by (simp add: countAliveCells_def lines_alive_def Grid_of_def Line_of_def Line_at_def
        Cell_isAlive_def Cell_new_def corner_3_def)
  have a: "lines_alive (Grid_of corner_3 corner_3) 2 2"
    by (simp add: lines_alive_def Grid_of_def Line_of_def Line_at_def
        Cell_isAlive_def Cell_new_def corner_3_def)
  show ?thesis
    using sq n c a countAliveCells_torus [of "Grid_of corner_3 corner_3" 0 0]
    by simp
qed

text \<open>
  Claim C4. On a grid of side at least 5 whose drawn buffer is a horizontal line of three
  live cells, every call of \<^verbatim>\<open>go()\<close> toggles between the horizontal and the vertical line,
  with period 2.

  On \<open>seeded_blinker\<close> (side 5, the horizontal line, as seeding leaves it) the first
  \<^verbatim>\<open>go()\<close> leaves only the two end cells of the vertical line alive, and the second
  leaves no cell alive: the drawn buffer is never the vertical line and never the
  horizontal line again.
\<close>

theorem seeded_blinker_does_not_oscillate:
  "lines seeded_blinker = map Line_of blinker_horizontal
   \<and> lines (go seeded_blinker) = map Line_of blinker_ends
   \<and> lines (go seeded_blinker) \<noteq> map Line_of blinker_vertical
   \<and> lines (go (go seeded_blinker)) = map Line_of dead_5
   \<and> lines (go (go seeded_blinker)) \<noteq> map Line_of blinker_horizontal"
proof -
  have 1: "lines seeded_blinker = map Line_of blinker_horizontal"
    by (simp add: seeded_blinker_eq Grid_of_def)
  have 2: "lines (go seeded_blinker) = map Line_of blinker_ends"
    by (simp add: seeded_blinker_eq go_seeded_lines)
  have 3: "map Line_of blinker_ends \<noteq> map Line_of blinker_vertical"
    by (simp add: Line_of_def Cell_new_def blinker_ends_def blinker_vertical_def)
  have 4: "lines (go (go seeded_blinker)) = map Line_of dead_5"
    by (simp add: seeded_blinker_eq go_seeded go_ends_lines)
  have 5: "map Line_of dead_5 \<noteq> map Line_of blinker_horizontal"
    by (simp add: Line_of_def Cell_new_def dead_5_def blinker_horizontal_def)
  show ?thesis
    using 1 2 3 4 5 by simp
qed

text \<open>
  Claim C5. The compute phase \<^verbatim>\<open>linesToBuffer()\<close> modifies no cell of the drawn buffer:
  the loop body, the inner loop, the outer loop and the whole phase leave \<^verbatim>\<open>lines\<close> as it
  was, so the neighbour count of every cell is the same in every state the loops pass
  through as in the grid before the call, and only the hidden buffer is written. The cell
  \<open>(i, j)\<close> of the hidden buffer after the phase is the rule applied to its own value
  before the phase and to the count of \<open>(i, j)\<close> in the grid before the phase.
\<close>

theorem compute_phase_keeps_drawn_buffer:
  "lines (linesToBuffer_cell ii jj g) = lines g
   \<and> lines (linesToBuffer_jj ii jj g) = lines g
   \<and> lines (linesToBuffer_ii ii g) = lines g
   \<and> lines (linesToBuffer g) = lines g
   \<and> countAliveCells (linesToBuffer_cell ii jj g) i j = countAliveCells g i j
   \<and> countAliveCells (linesToBuffer_jj ii jj g) i j = countAliveCells g i j
   \<and> countAliveCells (linesToBuffer_ii ii g) i j = countAliveCells g i j
   \<and> (square g \<and> i < Grid_size g \<and> j < Grid_size g \<longrightarrow>
        buffer_alive (linesToBuffer g) i j
          = classic_rule (buffer_alive g i j) (countAliveCells g i j))"
proof -
  have 1: "countAliveCells (linesToBuffer_cell ii jj g) i j = countAliveCells g i j"
    by (rule countAliveCells_lines) simp
  have 2: "countAliveCells (linesToBuffer_jj ii jj g) i j = countAliveCells g i j"
    by (rule countAliveCells_lines) simp
  have 3: "countAliveCells (linesToBuffer_ii ii g) i j = countAliveCells g i j"
    by (rule countAliveCells_lines) simp
  show ?thesis
    using 1 2 3 by (simp add: linesToBuffer_def Grid_size_def buffer_alive_linesToBuffer_ii)
qed

theorem compute_phase_keeps_drawn_buffer_witness:
  "square (Grid_of corner_3 corner_3) \<and> 1 < Grid_size (Grid_of corner_3 corner_3)
   \<and> lines (linesToBuffer (Grid_of corner_3 corner_3)) = lines (Grid_of corner_3 corner_3)
   \<and> countAliveCells (Grid_of corner_3 corner_3) 1 1 = 3
   \<and> buffer_alive (Grid_of corner_3 corner_3) 1 1 = False
   \<and> buffer_alive (linesToBuffer (Grid_of corner_3 corner_3)) 1 1 = True"
proof -
  have sq: "square (Grid_of corner_3 corner_3)"
    by (simp add: square_def Grid_of_def Line_of_def corner_3_def)
  have n: "Grid_size (Grid_of corner_3 corner_3) = 3"
    by (simp add: Grid_size_def Grid_of_def corner_3_def)
  have c: "countAliveCells (Grid_of corner_3 corner_3) 1 1 = 3"
    by (simp add: countAliveCells_def lines_alive_def Grid_of_def Line_of_def Line_at_def
        Cell_isAlive_def Cell_new_def corner_3_def)
  have b: "buffer_alive (Grid_of corner_3 corner_3) 1 1 = False"
    by (simp add: buffer_alive_def Grid_of_def Line_of_def Line_at_def
        Cell_isAlive_def Cell_new_def corner_3_def)
  show ?thesis
    using sq n c b compute_phase_keeps_drawn_buffer [of 0 0 "Grid_of corner_3 corner_3" 1 1]
    by (simp add: classic_rule_def)
qed

text \<open>
  Claim C6. \<^verbatim>\<open>initializeRandomly\<close> modifies the drawn buffer only: the hidden buffer after
  the call is the hidden buffer before it. On a fresh grid it is still the constructed
  one, all dead, and it can differ from the drawn buffer: it does after seeding a grid of
  side 1 with 100 and the draw 0.
\<close>

theorem seeding_leaves_hidden_buffer:
  "lines_buffer (fst (Grid_initializeRandomly probability rand g k)) = lines_buffer g
   \<and> lines_buffer (fst (Grid_initializeRandomly probability rand (Grid_new n) k))
       = replicate n (Line_new n)
   \<and> cells_all_dead (lines_buffer (fst (Grid_initializeRandomly probability rand (Grid_new n) k)))
   \<and> lines_buffer (fst (Grid_initializeRandomly 100 rand_0 (Grid_new 1) 0))
       \<noteq> lines (fst (Grid_initializeRandomly 100 rand_0 (Grid_new 1) 0))"
proof -
  have "cells_all_dead (replicate n (Line_new n))"
    by (simp add: cells_all_dead_def Line_new_def Cell_new_def Cell_isAlive_def list_all_length)
  moreover
  have "lines_buffer (fst (Grid_initializeRandomly 100 rand_0 (Grid_new 1) 0))
          \<noteq> lines (fst (Grid_initializeRandomly 100 rand_0 (Grid_new 1) 0))"
    by (simp add: rndBool_100 rand_0_def Grid_initializeRandomly_def Grid_new_def Line_new_def
        Line_initializeRandomly_def setAlive_def Cell_new_def)
  ultimately show ?thesis
    by (simp add: Grid_new_def)
qed

text \<open>
  Claim C7. After every call of \<^verbatim>\<open>go()\<close> the hidden and the drawn buffer hold the same
  contents: the buffers are equal, and for every coordinate \<open>(i, j)\<close> of the grid the
  hidden cell is alive exactly when the drawn cell is.
\<close>

theorem buffers_agree_after_go:
  "square g \<Longrightarrow>
     lines_buffer (go g) = lines (go g)
     \<and> (\<forall>i<Grid_size g. \<forall>j<Grid_size g. buffer_alive (go g) i j = lines_alive (go g) i j)"
proof -
  assume sq: "square g"
  have "lines_buffer (go g) = lines (go g)"
  proof (rule buffers_equal)
    show "square (go g)"
      using sq by (rule square_go)
  next
    fix i j assume "i < length (lines (go g))" "j < length (lines (go g))"
    then show "buffer_alive (go g) i j = lines_alive (go g) i j"
      using sq by (simp add: buffer_alive_go lines_alive_go)
  qed
  then show ?thesis
    by (simp add: buffer_alive_def lines_alive_def)
qed

theorem buffers_agree_after_go_witness:
  "square seeded_blinker
   \<and> lines_buffer seeded_blinker \<noteq> lines seeded_blinker
   \<and> lines_buffer (go seeded_blinker) = lines (go seeded_blinker)
   \<and> 1 < Grid_size seeded_blinker \<and> 2 < Grid_size seeded_blinker
   \<and> buffer_alive (go seeded_blinker) 1 2 = lines_alive (go seeded_blinker) 1 2"
proof -
  have sq: "square seeded_blinker"
    by (simp add: seeded_blinker_eq square_seeded)
  have n: "Grid_size seeded_blinker = 5"
    by (simp add: Grid_size_def seeded_blinker_eq Grid_of_def blinker_horizontal_def)
  have d: "lines_buffer seeded_blinker \<noteq> lines seeded_blinker"
    by (simp add: seeded_blinker_eq Grid_of_def Line_of_def Cell_new_def blinker_horizontal_def
        dead_5_def)
  show ?thesis
    using sq n d buffers_agree_after_go [OF sq] by simp
qed

text \<open>
  Claim C8. For every reachable grid whose drawn cells are all dead, the drawn cells are
  all dead after \<^verbatim>\<open>go()\<close>.
\<close>

theorem no_spontaneous_generation:
  "reachable g \<Longrightarrow> all_dead g \<Longrightarrow> all_dead (go g)"
  by (simp add: reachable_square all_dead_go)

theorem no_spontaneous_generation_witness:
  "reachable (Grid_new 2) \<and> all_dead (Grid_new 2) \<and> all_dead (go (Grid_new 2))"
proof -
  have r: "reachable (Grid_new 2)"
    by (rule reachable.construct)
  have d: "all_dead (Grid_new 2)"
    by (simp add: all_dead_def cells_all_dead_def Grid_new_def Line_new_def Cell_new_def
        Cell_isAlive_def list_all_length)
  show ?thesis
    using r d no_spontaneous_generation [OF r d] by simp
qed

text \<open>
  Claim C9. \<^verbatim>\<open>isAlive\<close> is a pure read: at every coordinate in range, a call leaves the
  grid, both buffers, as it was, and any number of calls in a row return the same answer
  each time.
\<close>

theorem isAlive_pure_read:
  "square g \<Longrightarrow> xx < Grid_size g \<Longrightarrow> yy < Grid_size g \<Longrightarrow>
     snd (isAlive g xx yy) = g
     \<and> isAlive_times n g xx yy = (replicate n (fst (isAlive g xx yy)), g)"
  by (induction n) (simp_all add: isAlive_def)

theorem isAlive_pure_read_witness:
  "square (go seeded_blinker) \<and> 1 < Grid_size (go seeded_blinker) \<and> 2 < Grid_size (go seeded_blinker)
   \<and> snd (isAlive (go seeded_blinker) 1 2) = go seeded_blinker
   \<and> isAlive_times 3 (go seeded_blinker) 1 2 = ([True, True, True], go seeded_blinker)"
proof -
  have sq: "square (go seeded_blinker)"
    by (simp add: seeded_blinker_eq square_go square_seeded)
  have n: "Grid_size (go seeded_blinker) = 5"
    by (simp add: Grid_size_def seeded_blinker_eq Grid_of_def blinker_horizontal_def)
  have a: "fst (isAlive (go seeded_blinker) 1 2) = True"
    by (simp add: isAlive_def seeded_blinker_eq go_seeded_lines Line_of_def Line_at_def
        Cell_isAlive_def Cell_new_def blinker_ends_def)
  show ?thesis
    using sq n a isAlive_pure_read [of "go seeded_blinker" 1 2 3]
    by (simp add: numeral_eq_Suc)
qed

text \<open>
  Claim C10. A freshly constructed grid is all dead: for every positive size \<open>n\<close> and
  all coordinates \<open>xx\<close>, \<open>yy\<close> below \<open>n\<close>, \<^verbatim>\<open>isAlive(xx, yy)\<close> on \<^verbatim>\<open>Grid(n)\<close>, before any
  seeding or step, answers false. The size of the grid is \<open>n\<close>.
\<close>

theorem fresh_grid_all_dead:
  "0 < n \<Longrightarrow> xx < n \<Longrightarrow> yy < n \<Longrightarrow>
     fst (isAlive (Grid_new n) xx yy) = False \<and> Grid_size (Grid_new n) = n"
  by (simp add: isAlive_def Grid_new_def Line_new_def Line_at_def Cell_isAlive_def Cell_new_def
      Grid_size_def)

theorem fresh_grid_all_dead_witness:
  "(0::nat) < 3 \<and> (2::nat) < 3 \<and> (1::nat) < 3
     \<and> fst (isAlive (Grid_new 3) 2 1) = False \<and> Grid_size (Grid_new 3) = 3"
  using fresh_grid_all_dead [of 3 2 1] by simp

end
